theory Spec2Isabelle
  imports Main "HOL-Library.Word"
begin

unbundle bit_operations_syntax

section \<open>Vulkan memory allocator (video_core/vulkan_common/vulkan_memory_allocator.cpp)\<close>

text \<open>
  A shallow embedding of the sub-allocator: \<^verbatim>\<open>Range\<close>, \<^verbatim>\<open>AllocationChunkSize\<close>,
  \<^verbatim>\<open>MemoryAllocation\<close> (one block), \<^verbatim>\<open>MemoryCommit\<close> (a handle to one range) and
  \<^verbatim>\<open>MemoryAllocator\<close>. \<^verbatim>\<open>u64\<close> and \<^verbatim>\<open>u32\<close> are machine words: \<open>+\<close> wraps around
  as the C++ unsigned arithmetic does.
\<close>

type_synonym u64 = "64 word"
type_synonym u32 = "32 word"

subsection \<open>Fatal conditions\<close>

text \<open>
  The source aborts in three ways: a failed \<^verbatim>\<open>ASSERT\<close>/\<^verbatim>\<open>ASSERT_MSG\<close>, an
  \<^verbatim>\<open>UNREACHABLE_MSG\<close>, and \<^verbatim>\<open>std::optional::value()\<close> on an empty optional (which
  throws \<^verbatim>\<open>std::bad_optional_access\<close>). Two more failures come from outside the
  allocation logic: the driver refusing \<^verbatim>\<open>AllocateMemory\<close>, and a \<^verbatim>\<open>MemoryCommit\<close>
  whose back-pointer refers to no block. Each is a value of \<open>error\<close>; a function that
  can fail returns \<open>error + 'a\<close> with \<open>Inl\<close> for the failure.
\<close>

datatype error =
  AssertionFailed | Unreachable | BadOptionalAccess | DeviceAllocationFailed | DanglingPointer

text \<open>
  Modelled from the spec: the \<^verbatim>\<open>ASSERT\<close> and \<^verbatim>\<open>ASSERT_MSG\<close> macros of
  \<^verbatim>\<open>common/assert.h\<close>, which is not among the sources. The spec (section 7) makes a
  violated assertion fatal: the operation does not continue.
\<close>

definition ASSERT :: "bool \<Rightarrow> error + unit" where
  "ASSERT cond = (if cond then Inr () else Inl AssertionFailed)"

subsection \<open>Range\<close>

text \<open>
  \<^verbatim>\<open>struct Range { u64 begin; u64 end; }\<close>. The fields are named \<open>r_begin\<close> and
  \<open>r_end\<close> here, \<^verbatim>\<open>begin\<close> and \<^verbatim>\<open>end\<close> being reserved words.
\<close>

record Range =
  r_begin :: u64
  r_end :: u64

definition Contains :: "Range \<Rightarrow> u64 \<Rightarrow> u64 \<Rightarrow> bool" where
  "Contains r iterator sz \<longleftrightarrow> iterator < r_end r \<and> r_begin r < iterator + sz"

subsection \<open>Alignment helpers\<close>

text \<open>The least multiple of \<open>a\<close> that is at least \<open>v\<close>, on unbounded naturals.\<close>

definition round_up :: "nat \<Rightarrow> nat \<Rightarrow> nat" where
  "round_up v a = ((v + a - 1) div a) * a"

text \<open>
  Modelled from the spec: \<^verbatim>\<open>Common::AlignUp\<close> of \<^verbatim>\<open>common/alignment.h\<close>, which is not
  among the sources. The spec (section 4.1): "round it up to the next multiple of a fixed
  large granularity". The result is a \<^verbatim>\<open>u64\<close>, so the rounded value is taken modulo
  \<open>2 ^ 64\<close>.
\<close>

definition AlignUp :: "u64 \<Rightarrow> u64 \<Rightarrow> u64" where
  "AlignUp v sz = word_of_nat (round_up (unat v) (unat sz))"

text \<open>
  Modelled from the spec: \<^verbatim>\<open>Common::AlignUpLog2\<close> of \<^verbatim>\<open>common/alignment.h\<close>, which is
  not among the sources. The spec (section 4.2, step 4): "the next alignment-aligned
  offset at or after the current Range's end", the alignment being \<open>2 ^ align_log2\<close>.
  The result is a \<^verbatim>\<open>u64\<close>, so the rounded value is taken modulo \<open>2 ^ 64\<close>.
\<close>

definition AlignUpLog2 :: "u64 \<Rightarrow> nat \<Rightarrow> u64" where
  "AlignUpLog2 v align_log2 = word_of_nat (round_up (unat v) (2 ^ align_log2))"

text \<open>
  \<^verbatim>\<open>std::has_single_bit\<close> and \<^verbatim>\<open>std::countr_zero\<close> of the C++ standard library
  (\<^verbatim>\<open><bit>\<close>): whether a value is a power of two, and the number of zero bits below its
  lowest set bit (64 for the value 0).
\<close>

definition has_single_bit :: "u64 \<Rightarrow> bool" where
  "has_single_bit w \<longleftrightarrow> (\<exists>k \<in> set [0..<64]. w = 2 ^ k)"

definition countr_zero :: "u64 \<Rightarrow> nat" where
  "countr_zero w = length (takeWhile (\<lambda>n. \<not> bit w n) [0..<64])"

subsection \<open>Chunk sizing\<close>

definition sizes :: "u64 list" where
  "sizes =
    [push_bit 10 0x1000, push_bit 10 0x1400, push_bit 10 0x1800, push_bit 10 0x1c00,
     push_bit 10 0x2000, push_bit 10 0x3200, push_bit 10 0x4000, push_bit 10 0x6000,
     push_bit 10 0x8000, push_bit 10 0xA000, push_bit 10 0x10000, push_bit 10 0x18000,
     push_bit 10 0x20000]"

text \<open>
  \<^verbatim>\<open>std::ranges::lower_bound\<close> on a sorted range: the first element that is not less
  than the value, or nothing (the end iterator).
\<close>

fun lower_bound :: "u64 list \<Rightarrow> u64 \<Rightarrow> u64 option" where
  "lower_bound [] v = None"
| "lower_bound (x # xs) v = (if x < v then lower_bound xs v else Some x)"

definition AllocationChunkSize :: "u64 \<Rightarrow> u64" where
  "AllocationChunkSize required_size =
     (case lower_bound sizes required_size of
        Some s \<Rightarrow> s
      | None \<Rightarrow> AlignUp required_size (push_bit 20 4))"

subsection \<open>Memory usage and property flags\<close>

text \<open>The \<^verbatim>\<open>VkMemoryPropertyFlagBits\<close> of the Vulkan headers.\<close>

definition VK_MEMORY_PROPERTY_DEVICE_LOCAL_BIT :: u32 where
  "VK_MEMORY_PROPERTY_DEVICE_LOCAL_BIT = 0x1"

definition VK_MEMORY_PROPERTY_HOST_VISIBLE_BIT :: u32 where
  "VK_MEMORY_PROPERTY_HOST_VISIBLE_BIT = 0x2"

definition VK_MEMORY_PROPERTY_HOST_COHERENT_BIT :: u32 where
  "VK_MEMORY_PROPERTY_HOST_COHERENT_BIT = 0x4"

definition VK_MEMORY_PROPERTY_HOST_CACHED_BIT :: u32 where
  "VK_MEMORY_PROPERTY_HOST_CACHED_BIT = 0x8"

datatype MemoryUsage = DeviceLocal | Upload | Download

fun MemoryUsagePropertyFlags :: "MemoryUsage \<Rightarrow> u32" where
  "MemoryUsagePropertyFlags DeviceLocal = VK_MEMORY_PROPERTY_DEVICE_LOCAL_BIT"
| "MemoryUsagePropertyFlags Upload =
     VK_MEMORY_PROPERTY_HOST_VISIBLE_BIT OR VK_MEMORY_PROPERTY_HOST_COHERENT_BIT"
| "MemoryUsagePropertyFlags Download =
     VK_MEMORY_PROPERTY_HOST_VISIBLE_BIT OR VK_MEMORY_PROPERTY_HOST_COHERENT_BIT OR
     VK_MEMORY_PROPERTY_HOST_CACHED_BIT"

subsection \<open>MemoryAllocation: one block\<close>

text \<open>
  The fields of \<^verbatim>\<open>class MemoryAllocation\<close> that the allocation logic reads or writes.
  The device reference, the driver's memory handle and the cached host mapping take no
  part in it.
\<close>

record MemoryAllocation =
  allocation_size :: u64
  property_flags :: u32
  shifted_memory_type :: u32
  commits :: "Range list"

text \<open>The constructor: \<^verbatim>\<open>shifted_memory_type{1U << type}\<close>, no commits.\<close>

definition MemoryAllocation_new :: "u32 \<Rightarrow> u64 \<Rightarrow> nat \<Rightarrow> MemoryAllocation" where
  "MemoryAllocation_new properties allocation_size_arg type =
     \<lparr>allocation_size = allocation_size_arg, property_flags = properties,
      shifted_memory_type = push_bit type 1, commits = []\<rparr>"

text \<open>
  The loop of \<^verbatim>\<open>FindFreeRegion\<close>. Its state is \<^verbatim>\<open>candidate\<close>, \<^verbatim>\<open>iterator\<close> and the
  position \<^verbatim>\<open>commit\<close> in the list, given here as the commits still ahead. The first
  equation is the \<^verbatim>\<open>break\<close> at \<^verbatim>\<open>commit == commits.end()\<close>.
\<close>

fun FindFreeRegion_loop ::
  "u64 \<Rightarrow> u64 \<Rightarrow> nat \<Rightarrow> u64 option \<Rightarrow> u64 \<Rightarrow> Range list \<Rightarrow> u64 option" where
  "FindFreeRegion_loop asize sz alignment_log2 candidate iterator [] =
     (if iterator + sz \<le> asize
      then Some (case candidate of Some c \<Rightarrow> c | None \<Rightarrow> iterator)
      else candidate)"
| "FindFreeRegion_loop asize sz alignment_log2 candidate iterator (commit # rest) =
     (if iterator + sz \<le> asize
      then (let c = (case candidate of Some c \<Rightarrow> c | None \<Rightarrow> iterator) in
            FindFreeRegion_loop asize sz alignment_log2
              (if Contains commit c sz then None else Some c)
              (AlignUpLog2 (r_end commit) alignment_log2) rest)
      else candidate)"

definition FindFreeRegion :: "MemoryAllocation \<Rightarrow> u64 \<Rightarrow> u64 \<Rightarrow> error + u64 option" where
  "FindFreeRegion blk sz alignment =
     (case ASSERT (has_single_bit alignment) of
        Inl e \<Rightarrow> Inl e
      | Inr _ \<Rightarrow>
          Inr (FindFreeRegion_loop (allocation_size blk) sz (countr_zero alignment)
                 None 0 (commits blk)))"

text \<open>
  \<^verbatim>\<open>commits.insert(std::ranges::upper_bound(commits, *alloc, {}, &Range::begin), range)\<close>:
  the new range goes before the first stored range whose begin is greater.
\<close>

fun insert_upper_bound :: "Range \<Rightarrow> Range list \<Rightarrow> Range list" where
  "insert_upper_bound x [] = [x]"
| "insert_upper_bound x (r # rs) =
     (if r_begin x < r_begin r then x # r # rs else r # insert_upper_bound x rs)"

text \<open>
  \<^verbatim>\<open>MemoryAllocation::Commit\<close>. The result is the block with the range stored and the
  range itself, from which the caller's \<^verbatim>\<open>MemoryCommit\<close> is made; \<open>None\<close> is the
  \<^verbatim>\<open>std::nullopt\<close> of a full block.
\<close>

definition MemoryAllocation_Commit ::
  "MemoryAllocation \<Rightarrow> u64 \<Rightarrow> u64 \<Rightarrow> error + (MemoryAllocation \<times> Range) option" where
  "MemoryAllocation_Commit blk sz alignment =
     (case FindFreeRegion blk sz alignment of
        Inl e \<Rightarrow> Inl e
      | Inr None \<Rightarrow> Inr None
      | Inr (Some alloc) \<Rightarrow>
          (let rng = \<lparr>r_begin = alloc, r_end = alloc + sz\<rparr> in
           Inr (Some (blk\<lparr>commits := insert_upper_bound rng (commits blk)\<rparr>, rng))))"

text \<open>
  \<^verbatim>\<open>std::ranges::find(commits, begin, &Range::begin)\<close>: the position of the first range
  with that begin, or nothing (the end iterator).
\<close>

fun find_begin :: "Range list \<Rightarrow> u64 \<Rightarrow> nat option" where
  "find_begin [] b = None"
| "find_begin (r # rs) b =
     (if r_begin r = b then Some 0 else map_option Suc (find_begin rs b))"

definition Free :: "MemoryAllocation \<Rightarrow> u64 \<Rightarrow> error + MemoryAllocation" where
  "Free blk b =
     (let it = find_begin (commits blk) b in
      case ASSERT (it \<noteq> None) of
        Inl e \<Rightarrow> Inl e
      | Inr _ \<Rightarrow>
          Inr (blk\<lparr>commits := take (the it) (commits blk) @ drop (Suc (the it)) (commits blk)\<rparr>))"

definition IsCompatible :: "MemoryAllocation \<Rightarrow> u32 \<Rightarrow> u32 \<Rightarrow> bool" where
  "IsCompatible blk flags type_mask \<longleftrightarrow>
     (flags AND property_flags blk) \<noteq> 0 \<and> (type_mask AND shifted_memory_type blk) \<noteq> 0"

subsection \<open>MemoryCommit\<close>

text \<open>
  The fields of \<^verbatim>\<open>class MemoryCommit\<close> that decide what is released. \<open>allocation\<close>
  is the back-pointer \<^verbatim>\<open>MemoryAllocation*\<close>: \<open>None\<close> is \<^verbatim>\<open>nullptr\<close>, \<open>Some i\<close> points
  to the block at position \<open>i\<close> of the allocator's \<^verbatim>\<open>allocations\<close> (blocks are only ever
  appended, and each lives behind a \<^verbatim>\<open>unique_ptr\<close>, so the position identifies it).
\<close>

record MemoryCommit =
  allocation :: "nat option"
  interval :: "u64 \<times> u64"

subsection \<open>MemoryAllocator\<close>

text \<open>\<^verbatim>\<open>VkMemoryRequirements\<close> of the Vulkan headers: size, alignment, memoryTypeBits.\<close>

record VkMemoryRequirements =
  req_size :: u64
  req_alignment :: u64
  memoryTypeBits :: u32

text \<open>
  \<open>memoryTypes\<close> is the device's table as the allocator reads it: the
  \<^verbatim>\<open>propertyFlags\<close> of \<^verbatim>\<open>properties.memoryTypes[0 .. memoryTypeCount - 1]\<close>, so
  \<^verbatim>\<open>memoryTypeCount\<close> is its length (at most 32 on a Vulkan device). A memory type index
  is a natural number below that length.
\<close>

record MemoryAllocator =
  memoryTypes :: "u32 list"
  allocations :: "MemoryAllocation list"

function FindType_loop :: "u32 list \<Rightarrow> u32 \<Rightarrow> u32 \<Rightarrow> nat \<Rightarrow> nat option" where
  "FindType_loop types flags type_mask type_index =
     (if type_index < length types
      then (let type_flags = types ! type_index in
            if (type_mask AND push_bit type_index 1) \<noteq> 0 \<and> (type_flags AND flags) \<noteq> 0
            then Some type_index
            else FindType_loop types flags type_mask (Suc type_index))
      else None)"
  by pat_completeness auto
termination
  by (relation "measure (\<lambda>(types, flags, type_mask, type_index). length types - type_index)")
     auto

declare FindType_loop.simps [simp del]

definition FindType :: "u32 list \<Rightarrow> u32 \<Rightarrow> u32 \<Rightarrow> nat option" where
  "FindType types flags type_mask = FindType_loop types flags type_mask 0"

text \<open>
  \<^verbatim>\<open>MemoryAllocator::MemoryPropertyFlags(u32, VkMemoryPropertyFlags)\<close>, a recursion
  that clears one bit per call. \<^verbatim>\<open>UNREACHABLE_MSG\<close> (of \<^verbatim>\<open>common/assert.h\<close>, not among
  the sources) is fatal as the spec's section 7 has it: the \<open>Unreachable\<close> error.
\<close>

function MemoryPropertyFlags :: "u32 list \<Rightarrow> u32 \<Rightarrow> u32 \<Rightarrow> error + u32" where
  "MemoryPropertyFlags types type_mask flags =
     (if FindType types flags type_mask \<noteq> None then Inr flags
      else if flags AND VK_MEMORY_PROPERTY_HOST_CACHED_BIT \<noteq> 0
      then MemoryPropertyFlags types type_mask (flags AND NOT VK_MEMORY_PROPERTY_HOST_CACHED_BIT)
      else if flags AND VK_MEMORY_PROPERTY_DEVICE_LOCAL_BIT \<noteq> 0
      then MemoryPropertyFlags types type_mask (flags AND NOT VK_MEMORY_PROPERTY_DEVICE_LOCAL_BIT)
      else Inl Unreachable)"
  by pat_completeness auto
termination
proof -
  have dec: "unat (x AND NOT y) < unat x" if "x AND y \<noteq> 0" for x y :: u32
  proof -
    have "x AND NOT y \<noteq> x"
    proof
      assume eq: "x AND NOT y = x"
      have "x AND y = (x AND NOT y) AND y"
        by (simp add: eq)
      also have "\<dots> = 0"
        by (simp add: and.assoc)
      finally show False
        using that by simp
    qed
    moreover have "x AND NOT y \<le> x"
      by (rule word_and_le2)
    ultimately have "x AND NOT y < x"
      by simp
    then show ?thesis
      by (simp add: word_less_nat_alt)
  qed
  show ?thesis
    by (relation "measure (\<lambda>(types, type_mask, flags). unat flags)") (auto intro: dec)
qed

declare MemoryPropertyFlags.simps [simp del]

text \<open>
  \<^verbatim>\<open>MemoryAllocator::TryCommit\<close>: the range-for over \<^verbatim>\<open>allocations\<close>, by position. The
  result carries the block list with the chosen block updated, and the handle.
\<close>

function TryCommit_loop ::
  "MemoryAllocation list \<Rightarrow> nat \<Rightarrow> VkMemoryRequirements \<Rightarrow> u32 \<Rightarrow>
   error + (MemoryAllocation list \<times> MemoryCommit) option" where
  "TryCommit_loop blocks i requirements flags =
     (if i < length blocks
      then (if \<not> IsCompatible (blocks ! i) flags (memoryTypeBits requirements)
            then TryCommit_loop blocks (Suc i) requirements flags
            else (case MemoryAllocation_Commit (blocks ! i) (req_size requirements)
                         (req_alignment requirements) of
                    Inl e \<Rightarrow> Inl e
                  | Inr (Some (blk, rng)) \<Rightarrow>
                      Inr (Some (blocks[i := blk],
                                 \<lparr>allocation = Some i, interval = (r_begin rng, r_end rng)\<rparr>))
                  | Inr None \<Rightarrow> TryCommit_loop blocks (Suc i) requirements flags))
      else Inr None)"
  by pat_completeness auto
termination
  by (relation "measure (\<lambda>(blocks, i, requirements, flags). length blocks - i)") auto

declare TryCommit_loop.simps [simp del]

definition TryCommit ::
  "MemoryAllocation list \<Rightarrow> VkMemoryRequirements \<Rightarrow> u32 \<Rightarrow>
   error + (MemoryAllocation list \<times> MemoryCommit) option" where
  "TryCommit blocks requirements flags = TryCommit_loop blocks 0 requirements flags"

text \<open>
  \<^verbatim>\<open>MemoryAllocator::AllocMemory\<close>. The driver call \<^verbatim>\<open>AllocateMemory\<close> is outside the
  sources; \<open>driver\<close> says for which size and type index it succeeds.
\<close>

definition AllocMemory ::
  "(u64 \<Rightarrow> nat \<Rightarrow> bool) \<Rightarrow> u32 list \<Rightarrow> MemoryAllocation list \<Rightarrow> u32 \<Rightarrow> u32 \<Rightarrow> u64 \<Rightarrow>
   error + MemoryAllocation list" where
  "AllocMemory driver types blocks flags type_mask sz =
     (case FindType types flags type_mask of
        None \<Rightarrow> Inl BadOptionalAccess
      | Some type \<Rightarrow>
          if driver sz type
          then Inr (blocks @ [MemoryAllocation_new flags sz type])
          else Inl DeviceAllocationFailed)"

text \<open>\<^verbatim>\<open>MemoryAllocator::Commit(const VkMemoryRequirements&, MemoryUsage)\<close>.\<close>

definition MemoryAllocator_Commit ::
  "(u64 \<Rightarrow> nat \<Rightarrow> bool) \<Rightarrow> MemoryAllocator \<Rightarrow> VkMemoryRequirements \<Rightarrow> MemoryUsage \<Rightarrow>
   error + (MemoryAllocator \<times> MemoryCommit)" where
  "MemoryAllocator_Commit driver st requirements usage =
     (case MemoryPropertyFlags (memoryTypes st) (memoryTypeBits requirements)
             (MemoryUsagePropertyFlags usage) of
        Inl e \<Rightarrow> Inl e
      | Inr flags \<Rightarrow>
          (case TryCommit (allocations st) requirements flags of
             Inl e \<Rightarrow> Inl e
           | Inr (Some (blocks, commit)) \<Rightarrow> Inr (st\<lparr>allocations := blocks\<rparr>, commit)
           | Inr None \<Rightarrow>
               (case AllocMemory driver (memoryTypes st) (allocations st) flags
                       (memoryTypeBits requirements)
                       (AllocationChunkSize (req_size requirements)) of
                  Inl e \<Rightarrow> Inl e
                | Inr grown \<Rightarrow>
                    (case TryCommit grown requirements flags of
                       Inl e \<Rightarrow> Inl e
                     | Inr None \<Rightarrow> Inl BadOptionalAccess
                     | Inr (Some (blocks, commit)) \<Rightarrow>
                         Inr (st\<lparr>allocations := blocks\<rparr>, commit)))))"

subsection \<open>The flag-resolution policy, as the spec words it\<close>

text \<open>
  Section 4.3 of the spec, \<^verbatim>\<open>ResolveFlags(typeMask, desiredFlags)\<close>: use the desired
  flags when a compatible type exists for them; otherwise drop host-cached, if set, and
  retry; otherwise drop device-local, if set, and retry; with neither bit left and no
  compatible type, fail. Written out without recursion: at most two bits are dropped,
  host-cached before device-local. "A compatible type exists" is what the allocator asks
  of \<^verbatim>\<open>FindType\<close>.
\<close>

definition ResolveFlags_spec :: "u32 list \<Rightarrow> u32 \<Rightarrow> u32 \<Rightarrow> error + u32" where
  "ResolveFlags_spec types type_mask desired =
     (let compatible = (\<lambda>f. FindType types f type_mask \<noteq> None);
          without_cached = desired AND NOT VK_MEMORY_PROPERTY_HOST_CACHED_BIT;
          without_local = desired AND NOT VK_MEMORY_PROPERTY_DEVICE_LOCAL_BIT;
          without_both = without_cached AND NOT VK_MEMORY_PROPERTY_DEVICE_LOCAL_BIT
      in
      if compatible desired then Inr desired
      else if desired AND VK_MEMORY_PROPERTY_HOST_CACHED_BIT \<noteq> 0
      then (if compatible without_cached then Inr without_cached
            else if desired AND VK_MEMORY_PROPERTY_DEVICE_LOCAL_BIT \<noteq> 0
            then (if compatible without_both then Inr without_both else Inl Unreachable)
            else Inl Unreachable)
      else if desired AND VK_MEMORY_PROPERTY_DEVICE_LOCAL_BIT \<noteq> 0
      then (if compatible without_local then Inr without_local else Inl Unreachable)
      else Inl Unreachable)"


subsection \<open>Releasing a commit\<close>

text \<open>
  \<^verbatim>\<open>MemoryCommit::Release\<close>: \<^verbatim>\<open>if (allocation) allocation->Free(interval.first)\<close>,
  on the allocator's block list. A handle made by \<^verbatim>\<open>TryCommit\<close> points at a block of the
  list; a position outside the list would be a dangling pointer, for which C++ defines no
  behaviour, and is the \<open>DanglingPointer\<close> error here.
\<close>

definition Release :: "MemoryAllocation list \<Rightarrow> MemoryCommit \<Rightarrow> error + MemoryAllocation list" where
  "Release blocks c =
     (case allocation c of
        None \<Rightarrow> Inr blocks
      | Some i \<Rightarrow>
          if i < length blocks
          then (case Free (blocks ! i) (fst (interval c)) of
                  Inl e \<Rightarrow> Inl e
                | Inr blk \<Rightarrow> Inr (blocks[i := blk]))
          else Inl DanglingPointer)"


subsection \<open>Sequences of operations on one block\<close>

text \<open>
  A call of \<^verbatim>\<open>MemoryAllocation::Commit(size, alignment)\<close> or of
  \<^verbatim>\<open>MemoryAllocation::Free(begin)\<close>. \<open>run_ops\<close> runs a sequence on a block and gives the
  block it leaves when every call succeeds: each \<^verbatim>\<open>Commit\<close> returns a commit (no failed
  assertion, no \<^verbatim>\<open>nullopt\<close>) and each \<^verbatim>\<open>Free\<close> passes its assertion.
\<close>

datatype block_op = OpCommit u64 u64 | OpFree u64

fun run_ops :: "MemoryAllocation \<Rightarrow> block_op list \<Rightarrow> MemoryAllocation option" where
  "run_ops blk [] = Some blk"
| "run_ops blk (OpCommit sz alignment # ops) =
     (case MemoryAllocation_Commit blk sz alignment of
        Inr (Some (blk', rng)) \<Rightarrow> run_ops blk' ops
      | Inr None \<Rightarrow> None
      | Inl e \<Rightarrow> None)"
| "run_ops blk (OpFree b # ops) =
     (case Free blk b of
        Inr blk' \<Rightarrow> run_ops blk' ops
      | Inl e \<Rightarrow> None)"

text \<open>
  Two ranges overlap when each begins before the other ends (the test of
  \<^verbatim>\<open>Range::Contains\<close>); two non-empty ranges that share a byte do. A list of ranges is
  non-overlapping when no two of its entries, at different positions, overlap.
\<close>

definition overlaps :: "Range \<Rightarrow> Range \<Rightarrow> bool" where
  "overlaps p q \<longleftrightarrow> r_begin p < r_end q \<and> r_begin q < r_end p"

definition non_overlapping :: "Range list \<Rightarrow> bool" where
  "non_overlapping cs = sorted_wrt (\<lambda>p q. \<not> overlaps p q) cs"

text \<open>
  The invariant behind it: the stored ranges are in ascending order of begin, pairwise
  non-overlapping, none ends before it begins and none ends beyond the block.
\<close>

definition block_inv :: "MemoryAllocation \<Rightarrow> bool" where
  "block_inv blk \<longleftrightarrow>
     sorted_wrt (\<lambda>p q. r_begin p \<le> r_begin q \<and> \<not> overlaps p q) (commits blk) \<and>
     (\<forall>r \<in> set (commits blk). r_begin r \<le> r_end r \<and> r_end r \<le> allocation_size blk)"


subsection \<open>MemoryCommit objects: moves and destruction\<close>

text \<open>
  Move construction and move assignment write to two \<^verbatim>\<open>MemoryCommit\<close> objects, which a
  caller may alias (\<^verbatim>\<open>c = std::move(c)\<close>), so the objects live in a store: \<open>objects\<close>
  maps an object's address to its fields, next to the allocator's block list that the
  back-pointers refer to. A default-constructed object has a null \<^verbatim>\<open>allocation\<close>.
\<close>

record heap =
  block_list :: "MemoryAllocation list"
  objects :: "nat \<Rightarrow> MemoryCommit"

text \<open>\<^verbatim>\<open>MemoryCommit::Release\<close> on the object at address \<open>this\<close>.\<close>

definition MemoryCommit_Release :: "heap \<Rightarrow> nat \<Rightarrow> error + heap" where
  "MemoryCommit_Release h this =
     (case Release (block_list h) (objects h this) of
        Inl e \<Rightarrow> Inl e
      | Inr bs \<Rightarrow> Inr (h\<lparr>block_list := bs\<rparr>))"

text \<open>
  \<^verbatim>\<open>MemoryCommit::operator=(MemoryCommit&& rhs)\<close>, statement by statement:
  \<^verbatim>\<open>Release()\<close>; \<^verbatim>\<open>allocation = std::exchange(rhs.allocation, nullptr)\<close>, which reads
  \<^verbatim>\<open>rhs.allocation\<close>, stores \<^verbatim>\<open>nullptr\<close> there and then assigns the value read;
  \<^verbatim>\<open>interval = rhs.interval\<close>. Each statement reads the store the one before it left.
\<close>

definition MemoryCommit_move_assign :: "heap \<Rightarrow> nat \<Rightarrow> nat \<Rightarrow> error + heap" where
  "MemoryCommit_move_assign h this rhs =
     (case MemoryCommit_Release h this of
        Inl e \<Rightarrow> Inl e
      | Inr h1 \<Rightarrow>
          (let old = allocation (objects h1 rhs);
               h2 = h1\<lparr>objects := (objects h1)(rhs := (objects h1 rhs)\<lparr>allocation := None\<rparr>)\<rparr>;
               h3 = h2\<lparr>objects := (objects h2)(this := (objects h2 this)\<lparr>allocation := old\<rparr>)\<rparr>;
               h4 = h3\<lparr>objects :=
                      (objects h3)(this := (objects h3 this)\<lparr>interval := interval (objects h3 rhs)\<rparr>)\<rparr>
           in Inr h4))"

text \<open>
  \<^verbatim>\<open>MemoryCommit::MemoryCommit(MemoryCommit&& rhs)\<close>: the member initialisers, in order,
  for a new object at address \<open>this\<close>.
\<close>

definition MemoryCommit_move_construct :: "heap \<Rightarrow> nat \<Rightarrow> nat \<Rightarrow> heap" where
  "MemoryCommit_move_construct h this rhs =
     (let old = allocation (objects h rhs);
          h1 = h\<lparr>objects := (objects h)(rhs := (objects h rhs)\<lparr>allocation := None\<rparr>)\<rparr>
      in h1\<lparr>objects :=
              (objects h1)(this := \<lparr>allocation = old, interval = interval (objects h1 rhs)\<rparr>)\<rparr>)"

text \<open>\<^verbatim>\<open>MemoryCommit::~MemoryCommit\<close> calls \<^verbatim>\<open>Release\<close>.\<close>

definition MemoryCommit_destroy :: "heap \<Rightarrow> nat \<Rightarrow> error + heap" where
  "MemoryCommit_destroy h this = MemoryCommit_Release h this"


subsection \<open>Example values\<close>

text \<open>A 4 MiB block of memory type 1 holding two commits of 64 KiB each.\<close>

definition example_block :: MemoryAllocation where
  "example_block =
     \<lparr>allocation_size = 0x400000, property_flags = 0x6, shifted_memory_type = 0x2,
      commits = [\<lparr>r_begin = 0, r_end = 65536\<rparr>, \<lparr>r_begin = 65536, r_end = 131072\<rparr>]\<rparr>"


text \<open>
  The device of the spec's end-to-end example: type 0 is device-local, type 1 is
  host-visible and host-coherent. The driver grants every allocation.
\<close>

definition example_types :: "u32 list" where
  "example_types = [0x1, 0x6]"

definition example_requirements :: VkMemoryRequirements where
  "example_requirements = \<lparr>req_size = 65536, req_alignment = 256, memoryTypeBits = 0x3\<rparr>"

definition driver_grants_all :: "u64 \<Rightarrow> nat \<Rightarrow> bool" where
  "driver_grants_all sz type = True"


text \<open>The same block holding only its first commit, and only its second.\<close>

definition example_block_first :: MemoryAllocation where
  "example_block_first = example_block\<lparr>commits := [\<lparr>r_begin = 0, r_end = 65536\<rparr>]\<rparr>"

definition example_block_hole :: MemoryAllocation where
  "example_block_hole = example_block\<lparr>commits := [\<lparr>r_begin = 65536, r_end = 131072\<rparr>]\<rparr>"

definition example_allocator :: "MemoryAllocation list \<Rightarrow> MemoryAllocator" where
  "example_allocator blocks = \<lparr>memoryTypes = example_types, allocations = blocks\<rparr>"




text \<open>
  A store with the block holding its first commit, and the \<^verbatim>\<open>MemoryCommit\<close> for that
  range at address 0; every other address holds a default-constructed object.
\<close>

definition example_heap :: heap where
  "example_heap =
     \<lparr>block_list = [example_block_first],
      objects = (\<lambda>p. \<lparr>allocation = None, interval = (0, 0)\<rparr>)
                  (0 := \<lparr>allocation = Some 0, interval = (0, 65536)\<rparr>)\<rparr>"



section \<open>Properties\<close>

subsection \<open>Alignment\<close>

lemma takeWhile_neq_upt: "k < m \<Longrightarrow> takeWhile (\<lambda>n. n \<noteq> k) [0..<m] = [0..<k]"
proof (induction m)
  case 0
  then show ?case by simp
next
  case (Suc m)
  show ?case
  proof (cases "k < m")
    case True
    then have "takeWhile (\<lambda>n. n \<noteq> k) [0..<m] = [0..<k]" by (rule Suc.IH)
    moreover have "\<exists>x \<in> set [0..<m]. \<not> x \<noteq> k" using True by simp
    ultimately show ?thesis
      by (simp add: takeWhile_append1)
  next
    case False
    with Suc.prems have km: "k = m" by simp
    have "takeWhile (\<lambda>n. n \<noteq> m) ([0..<m] @ [m]) = [0..<m] @ takeWhile (\<lambda>n. n \<noteq> m) [m]"
      by (rule takeWhile_append2) simp
    then show ?thesis
      using km by simp
  qed
qed

lemma countr_zero_pow: "k < 64 \<Longrightarrow> countr_zero (2 ^ k) = k"
proof -
  assume k: "k < 64"
  have "\<And>n. n \<in> set [0..<64] \<Longrightarrow> (\<not> bit (2 ^ k :: u64) n) = (n \<noteq> k)"
    using k by (auto simp: bit_exp_iff)
  then have "takeWhile (\<lambda>n. \<not> bit (2 ^ k :: u64) n) [0..<64] = takeWhile (\<lambda>n. n \<noteq> k) [0..<64]"
    by (intro takeWhile_cong) auto
  then show ?thesis
    using k by (simp add: countr_zero_def takeWhile_neq_upt)
qed

lemma unat_pow2: "k < 64 \<Longrightarrow> unat (2 ^ k :: u64) = 2 ^ k"
proof -
  assume k: "k < 64"
  have "(2 ^ k :: u64) = word_of_nat (2 ^ k)"
    by simp
  then have "unat (2 ^ k :: u64) = 2 ^ k mod 2 ^ 64"
    by (simp only: unat_of_nat) simp
  moreover have "(2::nat) ^ k < 2 ^ 64"
    using k by (rule power_strict_increasing) simp
  ultimately show ?thesis
    by simp
qed

lemma has_single_bit_pow:
  assumes "has_single_bit a"
  shows "\<exists>k < 64. a = 2 ^ k \<and> countr_zero a = k \<and> unat a = 2 ^ k"
proof -
  from assms obtain k where k: "k < 64" "a = 2 ^ k"
    by (auto simp: has_single_bit_def)
  have "unat (2 ^ k :: u64) = 2 ^ k"
    using k(1) by (rule unat_pow2)
  with k countr_zero_pow [OF k(1)] show ?thesis
    by auto
qed

lemma round_up_dvd: "a dvd round_up v a"
  by (simp add: round_up_def)

lemma round_up_ge:
  assumes "0 < a"
  shows "v \<le> round_up v a"
proof -
  have "(v + a - 1) mod a < a"
    using assms by simp
  moreover have "(v + a - 1) div a * a + (v + a - 1) mod a = v + a - 1"
    by simp
  ultimately show ?thesis
    unfolding round_up_def by linarith
qed

lemma round_up_lt:
  assumes "0 < a"
  shows "round_up v a < v + a"
proof -
  have "(v + a - 1) div a * a \<le> v + a - 1"
    by simp
  then show ?thesis
    unfolding round_up_def using assms by linarith
qed

lemma round_up_least:
  assumes "0 < a" and "a dvd c" and "v \<le> c"
  shows "round_up v a \<le> c"
proof -
  from assms(2) obtain m where c: "c = m * a"
    by (auto simp: dvd_def mult.commute)
  have "v + a - 1 < (m + 1) * a"
    using assms(1,3) c by (simp add: algebra_simps)
  then have "(v + a - 1) div a < m + 1"
    by (rule less_mult_imp_div_less)
  then have "(v + a - 1) div a \<le> m"
    by simp
  then show ?thesis
    unfolding round_up_def c by (rule mult_le_mono1)
qed

lemma unat_word_of_nat_dvd:
  assumes "k \<le> 64" and "2 ^ k dvd n"
  shows "2 ^ k dvd unat (word_of_nat n :: u64)"
proof -
  have "(2::nat) ^ k dvd 2 ^ 64"
    using assms(1) by (rule le_imp_power_dvd)
  with assms(2) have "2 ^ k dvd n mod 2 ^ 64"
    by (simp add: dvd_mod)
  then show ?thesis
    by (simp add: unat_of_nat)
qed

lemma AlignUpLog2_dvd: "k \<le> 64 \<Longrightarrow> 2 ^ k dvd unat (AlignUpLog2 v k)"
  unfolding AlignUpLog2_def by (rule unat_word_of_nat_dvd) (simp_all add: round_up_dvd)

lemma AlignUpLog2_unat:
  assumes "unat v + 2 ^ k \<le> 2 ^ 64"
  shows "unat (AlignUpLog2 v k) = round_up (unat v) (2 ^ k)"
proof -
  have "round_up (unat v) (2 ^ k) < unat v + 2 ^ k"
    by (rule round_up_lt) simp
  with assms have "round_up (unat v) (2 ^ k) < 2 ^ 64"
    by linarith
  then show ?thesis
    by (simp add: AlignUpLog2_def unat_of_nat)
qed


subsection \<open>IsCompatible and FindType\<close>

text \<open>
  C2: \<^verbatim>\<open>IsCompatible\<close> at a block created for Upload memory (property flags
  host-visible and host-coherent, memory type 1), asked for the Download flags
  (host-visible, host-coherent, host-cached) with type 1 allowed. The block lacks the
  requested host-cached bit, and the code still answers true: it tests
  \<^verbatim>\<open>flags & property_flags\<close> for any common bit, not for all requested bits.
\<close>

theorem C2_IsCompatible_any_common_bit:
  "IsCompatible (MemoryAllocation_new 0x6 0x400000 1) 0xE 0x2 = True \<and>
   (0xE :: u32) AND property_flags (MemoryAllocation_new 0x6 0x400000 1) \<noteq> 0xE"
  by (simp add: IsCompatible_def MemoryAllocation_new_def)

text \<open>
  C3: \<^verbatim>\<open>FindType\<close> on a device whose only memory type offers host-visible and
  host-coherent, asked for the Download flags (with host-cached). The type's flags are
  not a superset of the request, and the code still returns index 0: it tests
  \<^verbatim>\<open>type_flags & flags\<close> for any common bit.
\<close>

theorem C3_FindType_any_common_bit:
  "FindType [0x6] 0xE 0x1 = Some 0 \<and> (0x6 :: u32) AND 0xE \<noteq> 0xE"
  by (simp add: FindType_def FindType_loop.simps)

subsection \<open>Free\<close>

lemma find_begin_None: "find_begin cs b = None \<longleftrightarrow> (\<forall>r \<in> set cs. r_begin r \<noteq> b)"
  by (induction cs) auto

lemma find_begin_Some:
  "find_begin cs b = Some i \<Longrightarrow>
     i < length cs \<and> r_begin (cs ! i) = b \<and> (\<forall>p \<in> set (take i cs). r_begin p \<noteq> b)"
proof (induction cs arbitrary: i)
  case Nil
  then show ?case by simp
next
  case (Cons r rs)
  show ?case
  proof (cases "r_begin r = b")
    case True
    with Cons.prems show ?thesis by simp
  next
    case False
    with Cons.prems obtain j where j: "find_begin rs b = Some j" "i = Suc j"
      by auto
    from Cons.IH [OF j(1)] False j(2) show ?thesis
      by simp
  qed
qed

text \<open>
  C9: \<^verbatim>\<open>Free(begin)\<close> fails its assertion (a fatal error) when no stored range has
  that begin. Otherwise it removes exactly one range, the first whose begin is the given
  value, and leaves every other range as it was, in the same order.
\<close>

theorem C9_Free_removes_first_match:
  "(\<not> (\<exists>r \<in> set (commits blk). r_begin r = b) \<longrightarrow> Free blk b = Inl AssertionFailed) \<and>
   ((\<exists>r \<in> set (commits blk). r_begin r = b) \<longrightarrow>
      (\<exists>before r after.
         commits blk = before @ r # after \<and> r_begin r = b \<and>
         (\<forall>p \<in> set before. r_begin p \<noteq> b) \<and>
         Free blk b = Inr (blk\<lparr>commits := before @ after\<rparr>)))"
proof (intro conjI impI)
  assume "\<not> (\<exists>r \<in> set (commits blk). r_begin r = b)"
  then have "find_begin (commits blk) b = None"
    by (simp add: find_begin_None)
  then show "Free blk b = Inl AssertionFailed"
    by (simp add: Free_def ASSERT_def)
next
  assume "\<exists>r \<in> set (commits blk). r_begin r = b"
  then have "find_begin (commits blk) b \<noteq> None"
    by (simp add: find_begin_None)
  then obtain i where i: "find_begin (commits blk) b = Some i"
    by auto
  let ?cs = "commits blk"
  from find_begin_Some [OF i]
  have lt: "i < length ?cs" and at: "r_begin (?cs ! i) = b"
    and before: "\<forall>p \<in> set (take i ?cs). r_begin p \<noteq> b"
    by auto
  have split: "?cs = take i ?cs @ (?cs ! i) # drop (Suc i) ?cs"
    using lt by (simp add: id_take_nth_drop)
  have "Free blk b = Inr (blk\<lparr>commits := take i ?cs @ drop (Suc i) ?cs\<rparr>)"
    using i by (simp add: Free_def ASSERT_def)
  with split at before
  show "\<exists>before r after.
         commits blk = before @ r # after \<and> r_begin r = b \<and>
         (\<forall>p \<in> set before. r_begin p \<noteq> b) \<and>
         Free blk b = Inr (blk\<lparr>commits := before @ after\<rparr>)"
    by blast
qed

theorem C9_Free_witness:
  "(\<exists>r \<in> set (commits example_block). r_begin r = 65536) \<and>
   Free example_block 65536 =
     Inr (example_block\<lparr>commits := [\<lparr>r_begin = 0, r_end = 65536\<rparr>]\<rparr>) \<and>
   \<not> (\<exists>r \<in> set (commits example_block). r_begin r = 7) \<and>
   Free example_block 7 = Inl AssertionFailed"
  using C9_Free_removes_first_match [of example_block 65536]
    C9_Free_removes_first_match [of example_block 7]
  by (simp add: example_block_def Free_def ASSERT_def)

subsection \<open>The free-region search: alignment and capacity\<close>


lemma MemoryAllocation_Commit_SomeD:
  assumes "MemoryAllocation_Commit blk sz alignment = Inr (Some (blk', rng))"
  shows "has_single_bit alignment"
    and "FindFreeRegion_loop (allocation_size blk) sz (countr_zero alignment) None 0 (commits blk)
          = Some (r_begin rng)"
    and "r_end rng = r_begin rng + sz"
    and "blk' = blk\<lparr>commits := insert_upper_bound rng (commits blk)\<rparr>"
  using assms
  by (auto simp: MemoryAllocation_Commit_def FindFreeRegion_def ASSERT_def Let_def
      split: if_splits option.splits sum.splits)


lemma has_single_bit_256: "has_single_bit 256"
proof -
  have "(256 :: u64) = 2 ^ 8" by simp
  then show ?thesis
    unfolding has_single_bit_def by (intro bexI [of _ 8]) simp_all
qed

lemma countr_zero_256: "countr_zero 256 = 8"
proof -
  have "(256 :: u64) = 2 ^ 8" by simp
  then show ?thesis
    by (simp only: countr_zero_pow)
qed

lemma Commit_example_second:
  "MemoryAllocation_Commit example_block_first 65536 256 =
     Inr (Some (example_block, \<lparr>r_begin = 65536, r_end = 131072\<rparr>))"
  by (simp add: MemoryAllocation_Commit_def FindFreeRegion_def ASSERT_def has_single_bit_256
      countr_zero_256 example_block_first_def example_block_def Contains_def AlignUpLog2_def
      round_up_def Let_def)


subsection \<open>The end-to-end example\<close>

lemma example_flags:
  "MemoryPropertyFlags example_types 0x3 (MemoryUsagePropertyFlags Upload) =
     Inr (VK_MEMORY_PROPERTY_HOST_VISIBLE_BIT OR VK_MEMORY_PROPERTY_HOST_COHERENT_BIT)"
  by code_simp

lemma example_first_commit:
  "MemoryAllocator_Commit driver_grants_all (example_allocator []) example_requirements Upload =
     Inr (example_allocator [example_block_first],
          \<lparr>allocation = Some 0, interval = (0, 65536)\<rparr>)"
  by code_simp

lemma example_block_first_eq:
  "example_block_first =
     (MemoryAllocation_new 0x6 4194304 1)\<lparr>commits := [\<lparr>r_begin = 0, r_end = 65536\<rparr>]\<rparr>"
  by (simp add: example_block_first_def example_block_def MemoryAllocation_new_def)

lemma TryCommit_example_second:
  "TryCommit [example_block_first] example_requirements 0x6 =
     Inr (Some ([example_block], \<lparr>allocation = Some 0, interval = (65536, 131072)\<rparr>))"
proof -
  have "IsCompatible example_block_first 0x6 0x3"
    by (simp add: IsCompatible_def example_block_first_def example_block_def)
  then show ?thesis
    by (simp add: TryCommit_def TryCommit_loop.simps [of _ 0] example_requirements_def
        Commit_example_second)
qed

lemma example_second_commit:
  "MemoryAllocator_Commit driver_grants_all (example_allocator [example_block_first])
       example_requirements Upload =
     Inr (example_allocator [example_block],
          \<lparr>allocation = Some 0, interval = (65536, 131072)\<rparr>)"
proof -
  have "MemoryPropertyFlags example_types (memoryTypeBits example_requirements)
          (MemoryUsagePropertyFlags Upload) = Inr 0x6"
    using example_flags
    by (simp add: example_requirements_def VK_MEMORY_PROPERTY_HOST_VISIBLE_BIT_def
        VK_MEMORY_PROPERTY_HOST_COHERENT_BIT_def)
  then show ?thesis
    by (simp add: MemoryAllocator_Commit_def example_allocator_def TryCommit_example_second)
qed

lemma example_release:
  "Release [example_block] \<lparr>allocation = Some 0, interval = (0, 65536)\<rparr> =
     Inr [example_block_hole]"
  by code_simp

lemma Commit_example_reuse:
  "MemoryAllocation_Commit example_block_hole 65536 256 =
     Inr (Some (example_block, \<lparr>r_begin = 0, r_end = 65536\<rparr>))"
  by (simp add: MemoryAllocation_Commit_def FindFreeRegion_def ASSERT_def has_single_bit_256
      countr_zero_256 example_block_hole_def example_block_def Contains_def AlignUpLog2_def
      round_up_def Let_def)

lemma TryCommit_example_reuse:
  "TryCommit [example_block_hole] example_requirements 0x6 =
     Inr (Some ([example_block], \<lparr>allocation = Some 0, interval = (0, 65536)\<rparr>))"
proof -
  have "IsCompatible example_block_hole 0x6 0x3"
    by (simp add: IsCompatible_def example_block_hole_def example_block_def)
  then show ?thesis
    by (simp add: TryCommit_def TryCommit_loop.simps [of _ 0] example_requirements_def
        Commit_example_reuse)
qed

lemma example_reuse_commit:
  "MemoryAllocator_Commit driver_grants_all (example_allocator [example_block_hole])
       example_requirements Upload =
     Inr (example_allocator [example_block],
          \<lparr>allocation = Some 0, interval = (0, 65536)\<rparr>)"
proof -
  have "MemoryPropertyFlags example_types (memoryTypeBits example_requirements)
          (MemoryUsagePropertyFlags Upload) = Inr 0x6"
    using example_flags
    by (simp add: example_requirements_def VK_MEMORY_PROPERTY_HOST_VISIBLE_BIT_def
        VK_MEMORY_PROPERTY_HOST_COHERENT_BIT_def)
  then show ?thesis
    by (simp add: MemoryAllocator_Commit_def example_allocator_def TryCommit_example_reuse)
qed

text \<open>
  C8, as stated, fails: the block created for the first request is not of size
  1,048,576. The smallest entry of the size table is \<^verbatim>\<open>0x1000ULL << 10\<close>, which is
  4,194,304.
\<close>

theorem C8_block_size_counterexample:
  "\<not> (case MemoryAllocator_Commit driver_grants_all (example_allocator [])
              example_requirements Upload of
         Inl e \<Rightarrow> False
       | Inr (st, commit) \<Rightarrow> map allocation_size (allocations st) = [1048576])"
  unfolding example_first_commit
  by (simp add: example_allocator_def example_block_first_def example_block_def)

text \<open>
  C8, amended: on the device with type 0 device-local and type 1 host-visible and
  host-coherent, the request of size 65536, alignment 256 and type mask \<open>0b11\<close> for
  Upload resolves to the flags host-visible and host-coherent; with no block yet, the
  commit creates one block of size 4,194,304 at type 1 (type bit \<open>1 << 1\<close>) and returns
  begin 0, end 65536; the second identical request returns begin 65536, end 131072 in the
  same block; releasing the first commit and requesting again returns begin 0, end 65536
  in the same block.
\<close>

theorem C8_end_to_end:
  "MemoryPropertyFlags example_types 0x3 (MemoryUsagePropertyFlags Upload) =
     Inr (VK_MEMORY_PROPERTY_HOST_VISIBLE_BIT OR VK_MEMORY_PROPERTY_HOST_COHERENT_BIT) \<and>
   MemoryAllocator_Commit driver_grants_all (example_allocator []) example_requirements Upload =
     Inr (example_allocator [example_block_first],
          \<lparr>allocation = Some 0, interval = (0, 65536)\<rparr>) \<and>
   example_block_first =
     (MemoryAllocation_new 0x6 4194304 1)\<lparr>commits := [\<lparr>r_begin = 0, r_end = 65536\<rparr>]\<rparr> \<and>
   MemoryAllocator_Commit driver_grants_all (example_allocator [example_block_first])
       example_requirements Upload =
     Inr (example_allocator [example_block],
          \<lparr>allocation = Some 0, interval = (65536, 131072)\<rparr>) \<and>
   Release [example_block] \<lparr>allocation = Some 0, interval = (0, 65536)\<rparr> =
     Inr [example_block_hole] \<and>
   MemoryAllocator_Commit driver_grants_all (example_allocator [example_block_hole])
       example_requirements Upload =
     Inr (example_allocator [example_block],
          \<lparr>allocation = Some 0, interval = (0, 65536)\<rparr>)"
  by (intro conjI example_flags example_first_commit example_block_first_eq
      example_second_commit example_release example_reuse_commit)


subsection \<open>Chunk sizing\<close>

lemma lower_bound_Some:
  "lower_bound xs v = Some s \<Longrightarrow> s \<in> set xs \<and> v \<le> s"
  by (induction xs) (auto split: if_splits)

lemma lower_bound_least:
  "sorted xs \<Longrightarrow> lower_bound xs v = Some s \<Longrightarrow> t \<in> set xs \<Longrightarrow> v \<le> t \<Longrightarrow> s \<le> t"
  by (induction xs) (auto split: if_splits)

lemma lower_bound_None: "lower_bound xs v = None \<longleftrightarrow> (\<forall>t \<in> set xs. t < v)"
  by (induction xs) auto

lemma sorted_sizes: "sorted sizes"
  by (simp add: sizes_def)

lemma sizes_max: "t \<in> set sizes \<Longrightarrow> t \<le> 0x8000000"
  by (auto simp: sizes_def)

lemma max_in_sizes: "0x8000000 \<in> set sizes"
  by (simp add: sizes_def)

lemma chunk_in_table:
  assumes "x \<le> 0x8000000"
  obtains s where "lower_bound sizes x = Some s" "AllocationChunkSize x = s"
proof -
  have "\<not> (0x8000000 :: u64) < x"
    using assms by simp
  with max_in_sizes have "\<not> (\<forall>t \<in> set sizes. t < x)"
    by blast
  then have "lower_bound sizes x \<noteq> None"
    by (simp only: lower_bound_None not_False_eq_True)
  then show ?thesis
    using that by (auto simp: AllocationChunkSize_def)
qed

lemma chunk_above_table:
  assumes "0x8000000 < x"
  shows "AllocationChunkSize x = AlignUp x 0x400000"
proof -
  have "lower_bound sizes x = None"
    unfolding lower_bound_None using assms sizes_max by fastforce
  then show ?thesis
    by (simp add: AllocationChunkSize_def)
qed

lemma unat_AlignUp_4MiB:
  assumes "x \<le> 0xFFFFFFFFFFC00000"
  shows "unat (AlignUp x 0x400000) = round_up (unat x) 0x400000"
proof -
  have "unat x \<le> 0xFFFFFFFFFFC00000"
    using assms by (simp add: word_le_nat_alt)
  moreover have "round_up (unat x) 0x400000 < unat x + 0x400000"
    by (rule round_up_lt) simp
  ultimately have "round_up (unat x) 0x400000 < 2 ^ 64"
    by simp
  then show ?thesis
    by (simp add: AlignUp_def unat_of_nat)
qed

lemma round_up_mono: "v \<le> w \<Longrightarrow> round_up v a \<le> round_up w a"
  unfolding round_up_def by (intro mult_le_mono1 div_le_mono) simp

text \<open>
  C4, as stated, fails at the top of the \<^verbatim>\<open>u64\<close> range: for a required size above
  \<open>2 ^ 64 - 2 ^ 22\<close> the next multiple of 4 MiB is \<open>2 ^ 64\<close>, which no \<^verbatim>\<open>u64\<close>
  holds, and the result wraps to 0. At \<open>2 ^ 64 - 1\<close> the chunk size is smaller than
  the required size.
\<close>

theorem C4_chunk_size_wraps_counterexample:
  "\<not> (0xFFFFFFFFFFFFFFFF \<le> AllocationChunkSize 0xFFFFFFFFFFFFFFFF)"
  by (simp add: AllocationChunkSize_def sizes_def AlignUp_def round_up_def)

text \<open>
  C4, amended: for required sizes \<open>x\<close> and \<open>y\<close> of at most \<open>2 ^ 64 - 2 ^ 22\<close>
  (\<^verbatim>\<open>0xFFFFFFFFFFC00000\<close>), \<^verbatim>\<open>AllocationChunkSize(x)\<close> is at least \<open>x\<close>; it is
  monotonic (\<open>x \<le> y\<close> gives a result for \<open>x\<close> not above the one for \<open>y\<close>); for
  \<open>x\<close> up to the table's maximum (128 MiB) it is the smallest table entry that is at
  least \<open>x\<close>; and for \<open>x\<close> above the maximum it is \<open>x\<close> rounded up to the next
  multiple of 4 MiB: a multiple of 4,194,304, at least \<open>x\<close> and less than
  \<open>x + 4,194,304\<close>.
\<close>

theorem C4_AllocationChunkSize:
  assumes "x \<le> 0xFFFFFFFFFFC00000" and "y \<le> 0xFFFFFFFFFFC00000"
  shows "x \<le> AllocationChunkSize x \<and>
         (x \<le> y \<longrightarrow> AllocationChunkSize x \<le> AllocationChunkSize y) \<and>
         (x \<le> 0x8000000 \<longrightarrow>
            AllocationChunkSize x \<in> set sizes \<and>
            (\<forall>s \<in> set sizes. x \<le> s \<longrightarrow> AllocationChunkSize x \<le> s)) \<and>
         (0x8000000 < x \<longrightarrow>
            4194304 dvd unat (AllocationChunkSize x) \<and>
            unat x \<le> unat (AllocationChunkSize x) \<and>
            unat (AllocationChunkSize x) < unat x + 4194304)"
proof -
  have ge: "v \<le> AllocationChunkSize v" if "v \<le> 0xFFFFFFFFFFC00000" for v
  proof (cases "v \<le> 0x8000000")
    case True
    then obtain s where "lower_bound sizes v = Some s" "AllocationChunkSize v = s"
      by (rule chunk_in_table)
    then show ?thesis
      using lower_bound_Some by auto
  next
    case False
    then have "AllocationChunkSize v = AlignUp v 0x400000"
      by (simp add: chunk_above_table)
    moreover have "unat v \<le> round_up (unat v) 0x400000"
      by (rule round_up_ge) simp
    ultimately show ?thesis
      using unat_AlignUp_4MiB [OF that] by (simp add: word_le_nat_alt)
  qed
  have mono: "AllocationChunkSize x \<le> AllocationChunkSize y" if xy: "x \<le> y"
  proof (cases "y \<le> 0x8000000")
    case True
    with xy have x: "x \<le> 0x8000000"
      by simp
    from x obtain s where s: "lower_bound sizes x = Some s" "AllocationChunkSize x = s"
      by (rule chunk_in_table)
    from True obtain t where t: "lower_bound sizes y = Some t" "AllocationChunkSize y = t"
      by (rule chunk_in_table)
    from lower_bound_Some [OF t(1)] xy have "t \<in> set sizes" "x \<le> t"
      by auto
    with lower_bound_least [OF sorted_sizes s(1)] show ?thesis
      using s(2) t(2) by simp
  next
    case False
    then have y: "0x8000000 < y"
      by simp
    show ?thesis
    proof (cases "x \<le> 0x8000000")
      case True
      then obtain s where s: "lower_bound sizes x = Some s" "AllocationChunkSize x = s"
        by (rule chunk_in_table)
      from lower_bound_Some [OF s(1)] have "s \<le> 0x8000000"
        using sizes_max by simp
      with y have "s \<le> y"
        by simp
      also have "y \<le> AllocationChunkSize y"
        using assms(2) by (rule ge)
      finally show ?thesis
        using s(2) by simp
    next
      case False
      then have "AllocationChunkSize x = AlignUp x 0x400000"
        by (simp add: chunk_above_table)
      moreover have "AllocationChunkSize y = AlignUp y 0x400000"
        using y by (rule chunk_above_table)
      moreover have "round_up (unat x) 0x400000 \<le> round_up (unat y) 0x400000"
        using xy by (intro round_up_mono) (simp add: word_le_nat_alt)
      ultimately show ?thesis
        using unat_AlignUp_4MiB [OF assms(1)] unat_AlignUp_4MiB [OF assms(2)]
        by (simp add: word_le_nat_alt)
    qed
  qed
  have table: "AllocationChunkSize x \<in> set sizes \<and>
      (\<forall>s \<in> set sizes. x \<le> s \<longrightarrow> AllocationChunkSize x \<le> s)" if "x \<le> 0x8000000"
  proof -
    from that obtain s where s: "lower_bound sizes x = Some s" "AllocationChunkSize x = s"
      by (rule chunk_in_table)
    show ?thesis
      using lower_bound_Some [OF s(1)] lower_bound_least [OF sorted_sizes s(1)] s(2)
      by auto
  qed
  have above: "4194304 dvd unat (AllocationChunkSize x) \<and>
      unat x \<le> unat (AllocationChunkSize x) \<and>
      unat (AllocationChunkSize x) < unat x + 4194304" if "0x8000000 < x"
  proof -
    have "unat (AllocationChunkSize x) = round_up (unat x) 0x400000"
      using chunk_above_table [OF that] unat_AlignUp_4MiB [OF assms(1)] by simp
    moreover have "4194304 dvd round_up (unat x) 0x400000"
      using round_up_dvd [where a = "0x400000" and v = "unat x"] by simp
    moreover have "unat x \<le> round_up (unat x) 0x400000"
      by (rule round_up_ge) simp
    moreover have "round_up (unat x) 0x400000 < unat x + 0x400000"
      by (rule round_up_lt) simp
    ultimately show ?thesis
      by simp
  qed
  show ?thesis
    using ge [OF assms(1)] mono table above by blast
qed

lemma chunk_65536: "AllocationChunkSize 65536 = 4194304"
  by (simp add: AllocationChunkSize_def sizes_def)

lemma chunk_above_max: "AllocationChunkSize 0x8000001 = 0x8400000"
  by (simp add: AllocationChunkSize_def sizes_def AlignUp_def round_up_def)

theorem C4_AllocationChunkSize_witness:
  "(65536 :: u64) \<le> 0xFFFFFFFFFFC00000 \<and> (0x8000001 :: u64) \<le> 0xFFFFFFFFFFC00000 \<and>
   (65536 :: u64) \<le> 0x8000001 \<and> (65536 :: u64) \<le> 0x8000000 \<and>
   AllocationChunkSize 65536 = 4194304 \<and> AllocationChunkSize 0x8000001 = 0x8400000 \<and>
   AllocationChunkSize 65536 \<le> AllocationChunkSize 0x8000001 \<and>
   AllocationChunkSize 65536 \<in> set sizes"
  using C4_AllocationChunkSize [of 65536 "0x8000001"] chunk_65536 chunk_above_max
  by simp


subsection \<open>Flag resolution\<close>

lemma and_not_and_self: "(x AND NOT b) AND b = (0 :: u32)"
  by (simp add: and.assoc)

lemma and_not_swap: "(x AND NOT b) AND c = (x AND c) AND NOT (b :: u32)"
  by (simp add: ac_simps)

lemma and_not_cached_local:
  "(x AND NOT VK_MEMORY_PROPERTY_HOST_CACHED_BIT) AND VK_MEMORY_PROPERTY_DEVICE_LOCAL_BIT =
     x AND VK_MEMORY_PROPERTY_DEVICE_LOCAL_BIT"
  unfolding VK_MEMORY_PROPERTY_HOST_CACHED_BIT_def VK_MEMORY_PROPERTY_DEVICE_LOCAL_BIT_def
  by (simp add: and.assoc)

lemma MemoryPropertyFlags_no_droppable:
  assumes "flags AND VK_MEMORY_PROPERTY_HOST_CACHED_BIT = 0"
    and "flags AND VK_MEMORY_PROPERTY_DEVICE_LOCAL_BIT = 0"
  shows "MemoryPropertyFlags types type_mask flags =
     (if FindType types flags type_mask \<noteq> None then Inr flags else Inl Unreachable)"
  using assms by (subst MemoryPropertyFlags.simps) simp

lemma MemoryPropertyFlags_only_local:
  assumes "flags AND VK_MEMORY_PROPERTY_HOST_CACHED_BIT = 0"
  shows "MemoryPropertyFlags types type_mask flags =
     (if FindType types flags type_mask \<noteq> None then Inr flags
      else if flags AND VK_MEMORY_PROPERTY_DEVICE_LOCAL_BIT \<noteq> 0
      then (if FindType types (flags AND NOT VK_MEMORY_PROPERTY_DEVICE_LOCAL_BIT) type_mask \<noteq> None
            then Inr (flags AND NOT VK_MEMORY_PROPERTY_DEVICE_LOCAL_BIT) else Inl Unreachable)
      else Inl Unreachable)"
proof -
  let ?dropped = "flags AND NOT VK_MEMORY_PROPERTY_DEVICE_LOCAL_BIT"
  have a: "?dropped AND VK_MEMORY_PROPERTY_HOST_CACHED_BIT = 0"
    using assms by (simp add: and_not_swap)
  have b: "?dropped AND VK_MEMORY_PROPERTY_DEVICE_LOCAL_BIT = 0"
    by (rule and_not_and_self)
  show ?thesis
    using assms MemoryPropertyFlags_no_droppable [OF a b, of types type_mask]
    by (subst MemoryPropertyFlags.simps) simp
qed

text \<open>
  The recursion terminates and computes the policy written out in \<open>ResolveFlags_spec\<close>:
  the desired flags unchanged when \<^verbatim>\<open>FindType\<close> finds a type for them; otherwise the
  host-cached bit is dropped first and the search retried, then the device-local bit is
  dropped and the search retried; and when no type is found and neither bit is left to
  drop, the result is the fatal \<open>Unreachable\<close>. The order of the steps is the spec's;
  whether a type is compatible is \<^verbatim>\<open>FindType\<close>'s answer.
\<close>

lemma MemoryPropertyFlags_unrolled:
  "MemoryPropertyFlags types type_mask flags = ResolveFlags_spec types type_mask flags"
proof (cases "flags AND VK_MEMORY_PROPERTY_HOST_CACHED_BIT = 0")
  case True
  then show ?thesis
    by (simp add: MemoryPropertyFlags_only_local ResolveFlags_spec_def Let_def)
next
  case False
  let ?dropped = "flags AND NOT VK_MEMORY_PROPERTY_HOST_CACHED_BIT"
  have "?dropped AND VK_MEMORY_PROPERTY_HOST_CACHED_BIT = 0"
    by (rule and_not_and_self)
  then have dropped: "MemoryPropertyFlags types type_mask ?dropped =
     (if FindType types ?dropped type_mask \<noteq> None then Inr ?dropped
      else if ?dropped AND VK_MEMORY_PROPERTY_DEVICE_LOCAL_BIT \<noteq> 0
      then (if FindType types (?dropped AND NOT VK_MEMORY_PROPERTY_DEVICE_LOCAL_BIT) type_mask \<noteq> None
            then Inr (?dropped AND NOT VK_MEMORY_PROPERTY_DEVICE_LOCAL_BIT) else Inl Unreachable)
      else Inl Unreachable)"
    by (rule MemoryPropertyFlags_only_local)
  have "MemoryPropertyFlags types type_mask flags =
     (if FindType types flags type_mask \<noteq> None then Inr flags
      else MemoryPropertyFlags types type_mask ?dropped)"
    using False by (subst MemoryPropertyFlags.simps) simp
  with dropped False show ?thesis
    by (simp add: ResolveFlags_spec_def Let_def and_not_cached_local)
qed


text \<open>
  C6 on the example device (type 0 device-local, type 1 host-visible and host-coherent)
  for the Download flags: no memory type of the device offers host-cached, so no
  compatible type exists for the desired flags and the host-cached bit should be dropped.
  The code returns the desired flags unchanged, host-cached included: \<^verbatim>\<open>FindType\<close>
  accepts type 1 because it shares a bit with the request.
\<close>

theorem C6_host_cached_kept_without_cached_type:
  "MemoryPropertyFlags example_types 0x3 (MemoryUsagePropertyFlags Download) =
     Inr (MemoryUsagePropertyFlags Download) \<and>
   MemoryUsagePropertyFlags Download AND VK_MEMORY_PROPERTY_HOST_CACHED_BIT \<noteq> 0 \<and>
   filter (\<lambda>type_flags. type_flags AND VK_MEMORY_PROPERTY_HOST_CACHED_BIT \<noteq> 0) example_types = []"
  by code_simp

subsection \<open>The free-region search: no overlap\<close>

lemma unat_add_no_wrap:
  fixes x y :: u64
  assumes "unat x + unat y < 2 ^ 64"
  shows "unat (x + y) = unat x + unat y"
  using assms by (simp add: unat_add_lem [THEN iffD1])

lemma Contains_nat:
  assumes "unat c + unat s < 2 ^ 64"
  shows "Contains r c s \<longleftrightarrow> unat c < unat (r_end r) \<and> unat (r_begin r) < unat c + unat s"
  by (simp add: Contains_def word_less_nat_alt unat_add_no_wrap [OF assms])

lemma aligned_below_round_up:
  assumes "0 < a" and "a dvd c" and "c < round_up e a"
  shows "c < e"
proof (rule ccontr)
  assume "\<not> c < e"
  then have "e \<le> c" by simp
  with assms(1,2) have "round_up e a \<le> c"
    by (rule round_up_least)
  with assms(3) show False by simp
qed

lemma FindFreeRegion_loop_no_overlap:
  fixes a s :: u64
  assumes k: "k < 64" and nowrap: "2 * unat a + 2 ^ k \<le> 2 ^ 64" and sa: "s \<le> a"
  shows "FindFreeRegion_loop a s k cand it cs = Some c \<Longrightarrow>
         sorted_wrt (\<lambda>p q. r_begin p \<le> r_begin q \<and> \<not> overlaps p q) (ps @ cs) \<Longrightarrow>
         \<forall>r \<in> set (ps @ cs). r_begin r \<le> r_end r \<and> r_end r \<le> a \<Longrightarrow>
         2 ^ k dvd unat it \<Longrightarrow>
         unat it < unat a + 2 ^ k \<Longrightarrow>
         (ps \<noteq> [] \<longrightarrow> it = AlignUpLog2 (r_end (last ps)) k) \<Longrightarrow>
         (ps = [] \<longrightarrow> cand = None) \<Longrightarrow>
         (\<forall>c'. cand = Some c' \<longrightarrow>
            2 ^ k dvd unat c' \<and> unat c' + unat s \<le> unat a \<and> (\<forall>r \<in> set ps. \<not> Contains r c' s)) \<Longrightarrow>
         (cand = None \<longrightarrow> (\<forall>r \<in> set ps. r_end r \<le> it)) \<Longrightarrow>
         unat c + unat s \<le> unat a \<and> (\<forall>r \<in> set (ps @ cs). \<not> Contains r c s)"
proof (induction cs arbitrary: cand it ps)
  case Nil
  have SA: "unat s \<le> unat a"
    using sa by (simp add: word_le_nat_alt)
  have A: "unat a < 2 ^ 64"
    using unsigned_less [of a, where ?'a = nat] by simp
  show ?case
  proof (cases "it + s \<le> a")
    case False
    with Nil.prems(1) have "cand = Some c" by simp
    with Nil.prems(8) show ?thesis by simp
  next
    case True
    show ?thesis
    proof (cases cand)
      case (Some c')
      with True Nil.prems(1) have "c' = c" by simp
      with Some Nil.prems(8) show ?thesis by simp
    next
      case None
      with True Nil.prems(1) have c: "c = it" by simp
      have "unat it + unat s < 2 ^ 64"
        using Nil.prems(5) SA nowrap by linarith
      with True have fit: "unat it + unat s \<le> unat a"
        by (simp add: word_le_nat_alt unat_add_no_wrap)
      have "\<not> Contains r it s" if "r \<in> set ps" for r
      proof -
        from that None Nil.prems(9) have "r_end r \<le> it" by simp
        then have "\<not> it < r_end r"
          by simp
        then show ?thesis
          by (simp add: Contains_def)
      qed
      with c fit show ?thesis by simp
    qed
  qed
next
  case (Cons r rest)
  have SA: "unat s \<le> unat a"
    using sa by (simp add: word_le_nat_alt)
  have A: "unat a < 2 ^ 64"
    using unsigned_less [of a, where ?'a = nat] by simp
  have K: "(0::nat) < 2 ^ k"
    by simp
  have it_s: "unat it + unat s < 2 ^ 64"
    using Cons.prems(5) SA nowrap by linarith
  have fits_add: "unat c' + unat s < 2 ^ 64" if "unat c' + unat s \<le> unat a" for c' :: u64
    using that A by linarith
  have align_end: "unat (AlignUpLog2 (r_end q) k) = round_up (unat (r_end q)) (2 ^ k)"
    if "r_end q \<le> a" for q
  proof -
    from that have "unat (r_end q) \<le> unat a"
      by (simp add: word_le_nat_alt)
    with nowrap have "unat (r_end q) + 2 ^ k \<le> 2 ^ 64"
      by linarith
    then show ?thesis
      by (rule AlignUpLog2_unat)
  qed
  have sorted: "sorted_wrt (\<lambda>p q. r_begin p \<le> r_begin q \<and> \<not> overlaps p q) (ps @ r # rest)"
    using Cons.prems(2) .
  have r_valid: "r_begin r \<le> r_end r" "r_end r \<le> a"
    using Cons.prems(3) by simp_all
  have ps_r: "r_begin p \<le> r_begin r \<and> \<not> overlaps p r" if "p \<in> set ps" for p
    using sorted that by (simp add: sorted_wrt_append)
  have ps_rest: "r_begin p \<le> r_begin q" if "p \<in> set ps" "q \<in> set (r # rest)" for p q
    using sorted that by (auto simp: sorted_wrt_append)
  show ?case
  proof (cases "it + s \<le> a")
    case False
    with Cons.prems(1) have cand: "cand = Some c" by simp
    with Cons.prems(8) have c: "2 ^ k dvd unat c" "unat c + unat s \<le> unat a"
      and c_ps: "\<forall>p \<in> set ps. \<not> Contains p c s"
      by simp_all
    from cand Cons.prems(7) have ps: "ps \<noteq> []" by auto
    with Cons.prems(6) have it: "it = AlignUpLog2 (r_end (last ps)) k" by simp
    have last_in: "last ps \<in> set ps"
      using ps by simp
    with Cons.prems(3) have "r_end (last ps) \<le> a" by simp
    then have it_nat: "unat it = round_up (unat (r_end (last ps))) (2 ^ k)"
      unfolding it by (rule align_end)
    from False have "unat a < unat it + unat s"
      by (simp add: word_le_nat_alt unat_add_no_wrap [OF it_s])
    with c(2) have "unat c < round_up (unat (r_end (last ps))) (2 ^ k)"
      unfolding it_nat [symmetric] by linarith
    with K c(1) have "unat c < unat (r_end (last ps))"
      by (rule aligned_below_round_up)
    moreover from c_ps last_in have "\<not> Contains (last ps) c s" by simp
    ultimately have beyond: "unat c + unat s \<le> unat (r_begin (last ps))"
      by (simp add: Contains_nat [OF fits_add [OF c(2)]])
    have "\<not> Contains q c s" if "q \<in> set (r # rest)" for q
    proof -
      from ps_rest [OF last_in that] have "unat (r_begin (last ps)) \<le> unat (r_begin q)"
        by (simp add: word_le_nat_alt)
      with beyond show ?thesis
        by (simp add: Contains_nat [OF fits_add [OF c(2)]])
    qed
    with c_ps c(2) show ?thesis
      by auto
  next
    case True
    define c0 where "c0 = (case cand of Some c \<Rightarrow> c | None \<Rightarrow> it)"
    have run: "FindFreeRegion_loop a s k (if Contains r c0 s then None else Some c0)
                 (AlignUpLog2 (r_end r) k) rest = Some c"
      using Cons.prems(1) True by (auto simp: c0_def Let_def split: if_splits)
    have c0: "2 ^ k dvd unat c0" "unat c0 + unat s \<le> unat a"
      and c0_ps: "\<forall>p \<in> set ps. \<not> Contains p c0 s"
    proof -
      show "2 ^ k dvd unat c0"
        using Cons.prems(4,8) by (cases cand) (simp_all add: c0_def)
      show "unat c0 + unat s \<le> unat a"
      proof (cases cand)
        case None
        with True show ?thesis
          by (simp add: c0_def word_le_nat_alt unat_add_no_wrap [OF it_s])
      next
        case (Some c')
        with Cons.prems(8) show ?thesis
          by (simp add: c0_def)
      qed
      show "\<forall>p \<in> set ps. \<not> Contains p c0 s"
      proof (cases cand)
        case None
        with Cons.prems(9) have "\<forall>p \<in> set ps. r_end p \<le> it" by simp
        with None show ?thesis
          by (auto simp: c0_def Contains_def)
      next
        case (Some c')
        with Cons.prems(8) show ?thesis
          by (simp add: c0_def)
      qed
    qed
    note Cn = Contains_nat [OF fits_add [OF c0(2)]]
    let ?it' = "AlignUpLog2 (r_end r) k"
    have it'_nat: "unat ?it' = round_up (unat (r_end r)) (2 ^ k)"
      using r_valid(2) by (rule align_end)
    have r_end_le: "unat (r_end r) \<le> unat ?it'"
      unfolding it'_nat using K by (rule round_up_ge)
    have "unat c + unat s \<le> unat a \<and> (\<forall>q \<in> set ((ps @ [r]) @ rest). \<not> Contains q c s)"
    proof (rule Cons.IH [OF run])
      show "sorted_wrt (\<lambda>p q. r_begin p \<le> r_begin q \<and> \<not> overlaps p q) ((ps @ [r]) @ rest)"
        using sorted by simp
      show "\<forall>q \<in> set ((ps @ [r]) @ rest). r_begin q \<le> r_end q \<and> r_end q \<le> a"
        using Cons.prems(3) by simp
      show "2 ^ k dvd unat ?it'"
        using k by (intro AlignUpLog2_dvd) simp
      have "round_up (unat (r_end r)) (2 ^ k) < unat (r_end r) + 2 ^ k"
        using K by (rule round_up_lt)
      moreover have "unat (r_end r) \<le> unat a"
        using r_valid(2) by (simp add: word_le_nat_alt)
      ultimately show "unat ?it' < unat a + 2 ^ k"
        unfolding it'_nat by linarith
      show "ps @ [r] \<noteq> [] \<longrightarrow> ?it' = AlignUpLog2 (r_end (last (ps @ [r]))) k"
        by simp
      show "ps @ [r] = [] \<longrightarrow> (if Contains r c0 s then None else Some c0) = None"
        by simp
      show "\<forall>c'. (if Contains r c0 s then None else Some c0) = Some c' \<longrightarrow>
              2 ^ k dvd unat c' \<and> unat c' + unat s \<le> unat a \<and>
              (\<forall>q \<in> set (ps @ [r]). \<not> Contains q c' s)"
        using c0 c0_ps by auto
      show "(if Contains r c0 s then None else Some c0) = None \<longrightarrow>
              (\<forall>q \<in> set (ps @ [r]). r_end q \<le> ?it')"
      proof (intro impI ballI)
        fix q
        assume "(if Contains r c0 s then None else Some c0) = None"
          and q: "q \<in> set (ps @ [r])"
        then have hit: "Contains r c0 s"
          by (simp split: if_splits)
        show "r_end q \<le> ?it'"
        proof (cases "q = r")
          case True
          with r_end_le show ?thesis
            by (simp add: word_le_nat_alt)
        next
          case False
          with q have qps: "q \<in> set ps" by simp
          from ps_r [OF qps] have bq: "unat (r_begin q) \<le> unat (r_begin r)"
            and dis: "\<not> (unat (r_begin q) < unat (r_end r) \<and> unat (r_begin r) < unat (r_end q))"
            by (simp_all add: overlaps_def word_le_nat_alt word_less_nat_alt)
          from r_valid(1) have br: "unat (r_begin r) \<le> unat (r_end r)"
            by (simp add: word_le_nat_alt)
          from hit have h: "unat c0 < unat (r_end r)" "unat (r_begin r) < unat c0 + unat s"
            by (simp_all add: Cn)
          from c0_ps qps have nq: "\<not> (unat c0 < unat (r_end q) \<and> unat (r_begin q) < unat c0 + unat s)"
            by (simp add: Cn)
          have "unat (r_end q) \<le> unat (r_end r)"
            using bq dis br h nq by linarith
          with r_end_le show ?thesis
            by (simp add: word_le_nat_alt)
        qed
      qed
    qed
    then show ?thesis
      by simp
  qed
qed

lemma FindFreeRegion_loop_start_fits:
  "FindFreeRegion_loop a s k None 0 cs = Some c \<Longrightarrow> s \<le> a"
  by (cases cs) (auto split: if_splits)

lemma overlaps_sym: "overlaps p q \<longleftrightarrow> overlaps q p"
  by (auto simp: overlaps_def)

lemma set_insert_upper_bound: "set (insert_upper_bound x xs) = insert x (set xs)"
  by (induction xs) auto

lemma sorted_insert_upper_bound:
  assumes "sorted_wrt (\<lambda>p q. r_begin p \<le> r_begin q \<and> \<not> overlaps p q) xs"
    and "\<forall>q \<in> set xs. \<not> overlaps x q"
  shows "sorted_wrt (\<lambda>p q. r_begin p \<le> r_begin q \<and> \<not> overlaps p q) (insert_upper_bound x xs)"
  using assms
proof (induction xs)
  case Nil
  then show ?case by simp
next
  case (Cons r rs)
  show ?case
  proof (cases "r_begin x < r_begin r")
    case True
    have "r_begin x \<le> r_begin q" if "q \<in> set (r # rs)" for q
    proof -
      from Cons.prems(1) that have "r_begin r \<le> r_begin q" by auto
      with True show ?thesis by simp
    qed
    with True Cons.prems show ?thesis
      by simp
  next
    case False
    then have "r_begin r \<le> r_begin x" by simp
    moreover have "\<not> overlaps r x"
      using Cons.prems(2) overlaps_sym [of r x] by simp
    moreover have "sorted_wrt (\<lambda>p q. r_begin p \<le> r_begin q \<and> \<not> overlaps p q)
        (insert_upper_bound x rs)"
      using Cons.prems by (intro Cons.IH) simp_all
    ultimately show ?thesis
      using False Cons.prems(1) by (simp add: set_insert_upper_bound)
  qed
qed

lemma Commit_preserves_block_inv:
  assumes inv: "block_inv blk"
    and nowrap: "2 * unat (allocation_size blk) + unat alignment \<le> 2 ^ 64"
    and commit: "MemoryAllocation_Commit blk sz alignment = Inr (Some (blk', rng))"
  shows "block_inv blk' \<and> allocation_size blk' = allocation_size blk"
proof -
  note d = MemoryAllocation_Commit_SomeD [OF commit]
  from has_single_bit_pow [OF d(1)] obtain k
    where k: "k < 64" "countr_zero alignment = k" "unat alignment = 2 ^ k"
    by auto
  let ?a = "allocation_size blk"
  let ?c = "r_begin rng"
  have run: "FindFreeRegion_loop ?a sz k None 0 (commits blk) = Some ?c"
    using d(2) k(2) by simp
  have sa: "sz \<le> ?a"
    using run by (rule FindFreeRegion_loop_start_fits)
  have nw: "2 * unat ?a + 2 ^ k \<le> 2 ^ 64"
    using nowrap k(3) by simp
  have res: "unat ?c + unat sz \<le> unat ?a \<and> (\<forall>r \<in> set ([] @ commits blk). \<not> Contains r ?c sz)"
    using k(1) nw sa run
  proof (rule FindFreeRegion_loop_no_overlap)
    show "sorted_wrt (\<lambda>p q. r_begin p \<le> r_begin q \<and> \<not> overlaps p q) ([] @ commits blk)"
      using inv by (simp add: block_inv_def)
    show "\<forall>r \<in> set ([] @ commits blk). r_begin r \<le> r_end r \<and> r_end r \<le> ?a"
      using inv by (simp add: block_inv_def)
  qed simp_all
  have "unat ?a < 2 ^ 64"
    using unsigned_less [of ?a, where ?'a = nat] by simp
  with res have end_nat: "unat (r_end rng) = unat ?c + unat sz"
    unfolding d(3) by (intro unat_add_no_wrap) linarith
  have valid: "r_begin rng \<le> r_end rng \<and> r_end rng \<le> ?a"
    using res end_nat by (simp add: word_le_nat_alt)
  have "\<not> overlaps rng q" if "q \<in> set (commits blk)" for q
  proof -
    from res that have "\<not> Contains q ?c sz" by simp
    then show ?thesis
      by (simp add: Contains_def overlaps_def d(3))
  qed
  then have "sorted_wrt (\<lambda>p q. r_begin p \<le> r_begin q \<and> \<not> overlaps p q)
      (insert_upper_bound rng (commits blk))"
    using inv by (intro sorted_insert_upper_bound) (simp_all add: block_inv_def)
  with valid inv show ?thesis
    by (simp add: d(4) block_inv_def set_insert_upper_bound)
qed

lemma Free_preserves_block_inv:
  assumes inv: "block_inv blk" and free: "Free blk b = Inr blk'"
  shows "block_inv blk' \<and> allocation_size blk' = allocation_size blk"
proof -
  let ?cs = "commits blk"
  from free obtain i where i: "find_begin ?cs b = Some i"
    and blk': "blk' = blk\<lparr>commits := take i ?cs @ drop (Suc i) ?cs\<rparr>"
    by (auto simp: Free_def ASSERT_def Let_def split: if_splits)
  from find_begin_Some [OF i] have "i < length ?cs"
    by simp
  then have split: "?cs = take i ?cs @ ?cs ! i # drop (Suc i) ?cs"
    by (simp add: id_take_nth_drop)
  have "sorted_wrt (\<lambda>p q. r_begin p \<le> r_begin q \<and> \<not> overlaps p q)
      (take i ?cs @ ?cs ! i # drop (Suc i) ?cs)"
    using inv split by (simp add: block_inv_def)
  then have "sorted_wrt (\<lambda>p q. r_begin p \<le> r_begin q \<and> \<not> overlaps p q)
      (take i ?cs @ drop (Suc i) ?cs)"
    by (simp add: sorted_wrt_append)
  moreover have "set (take i ?cs @ drop (Suc i) ?cs) \<subseteq> set ?cs"
    using set_take_subset [of i ?cs] set_drop_subset [of "Suc i" ?cs] by auto
  ultimately show ?thesis
    using inv unfolding blk' block_inv_def by auto
qed

lemma run_ops_block_inv:
  assumes "run_ops blk ops = Some blk'"
    and "block_inv blk"
    and "\<forall>sz al. OpCommit sz al \<in> set ops \<longrightarrow> 2 * unat (allocation_size blk) + unat al \<le> 2 ^ 64"
  shows "block_inv blk'"
  using assms
proof (induction blk ops rule: run_ops.induct)
  case (1 blk)
  then show ?case by simp
next
  case (2 blk sz alignment ops)
  from "2.prems"(1) obtain blk1 rng
    where c: "MemoryAllocation_Commit blk sz alignment = Inr (Some (blk1, rng))"
      and rest: "run_ops blk1 ops = Some blk'"
    by (auto split: sum.splits option.splits)
  have "2 * unat (allocation_size blk) + unat alignment \<le> 2 ^ 64"
    using "2.prems"(3) by simp
  with "2.prems"(2) have "block_inv blk1 \<and> allocation_size blk1 = allocation_size blk"
    using c by (rule Commit_preserves_block_inv)
  with "2.prems"(3) show ?case
    by (intro "2.IH" [OF c refl refl rest]) simp_all
next
  case (3 blk b ops)
  from "3.prems"(1) obtain blk1
    where f: "Free blk b = Inr blk1" and rest: "run_ops blk1 ops = Some blk'"
    by (auto split: sum.splits)
  from "3.prems"(2) f have "block_inv blk1 \<and> allocation_size blk1 = allocation_size blk"
    by (rule Free_preserves_block_inv)
  with "3.prems"(3) show ?case
    by (intro "3.IH" [OF f rest]) simp_all
qed

lemma block_inv_new: "block_inv (MemoryAllocation_new flags a type)"
  by (simp add: block_inv_def MemoryAllocation_new_def)

text \<open>
  C1, amended: take a fresh block of size \<open>a\<close> and any sequence of
  \<^verbatim>\<open>Commit\<close> and \<^verbatim>\<open>Free\<close> calls on it that all succeed, where every alignment \<open>al\<close>
  passed to \<^verbatim>\<open>Commit\<close> satisfies \<open>2 * a + al \<le> 2 ^ 64\<close>, so that no 64-bit addition of
  the search wraps around. Then no two ranges stored in the block's \<^verbatim>\<open>commits\<close> list
  overlap. The sequence is arbitrary, so the same holds after each of its prefixes, that
  is, at every point between two operations. A successful \<^verbatim>\<open>Commit\<close> has a
  power-of-two alignment, or its assertion would have failed.
\<close>

theorem C1_commits_never_overlap:
  assumes "run_ops (MemoryAllocation_new flags a type) ops = Some blk"
    and "\<forall>sz al. OpCommit sz al \<in> set ops \<longrightarrow> 2 * unat a + unat al \<le> 2 ^ 64"
  shows "non_overlapping (commits blk)"
proof -
  have "block_inv blk"
    using assms(1) block_inv_new
  proof (rule run_ops_block_inv)
    show "\<forall>sz al. OpCommit sz al \<in> set ops \<longrightarrow>
        2 * unat (allocation_size (MemoryAllocation_new flags a type)) + unat al \<le> 2 ^ 64"
      using assms(2) by (simp add: MemoryAllocation_new_def)
  qed
  then have "sorted_wrt (\<lambda>p q. r_begin p \<le> r_begin q \<and> \<not> overlaps p q) (commits blk)"
    by (simp add: block_inv_def)
  then show ?thesis
    unfolding non_overlapping_def by (rule sorted_wrt_mono_rel [rotated]) simp
qed


lemma Commit_example_first:
  "MemoryAllocation_Commit (MemoryAllocation_new 0x6 0x400000 1) 65536 256 =
     Inr (Some (example_block_first, \<lparr>r_begin = 0, r_end = 65536\<rparr>))"
  by (simp add: MemoryAllocation_Commit_def FindFreeRegion_def ASSERT_def has_single_bit_256
      countr_zero_256 example_block_first_def example_block_def MemoryAllocation_new_def Let_def)

lemma Free_example_first: "Free example_block 0 = Inr example_block_hole"
  by (simp add: Free_def ASSERT_def example_block_def example_block_hole_def)

lemma run_ops_example:
  "run_ops (MemoryAllocation_new 0x6 0x400000 1)
     [OpCommit 65536 256, OpCommit 65536 256, OpFree 0, OpCommit 65536 256] = Some example_block"
  by (simp only: run_ops.simps Commit_example_first Commit_example_second Free_example_first
      Commit_example_reuse sum.case option.case prod.case)

theorem C1_commits_never_overlap_witness:
  "run_ops (MemoryAllocation_new 0x6 0x400000 1)
     [OpCommit 65536 256, OpCommit 65536 256, OpFree 0, OpCommit 65536 256] = Some example_block \<and>
   2 * unat (0x400000 :: u64) + unat (256 :: u64) \<le> 2 ^ 64 \<and>
   non_overlapping (commits example_block)"
proof -
  have "\<forall>sz al. OpCommit sz al \<in>
          set [OpCommit 65536 256, OpCommit 65536 256, OpFree 0, OpCommit 65536 256] \<longrightarrow>
        2 * unat (0x400000 :: u64) + unat al \<le> 2 ^ 64"
    by simp
  with run_ops_example have "non_overlapping (commits example_block)"
    by (rule C1_commits_never_overlap)
  with run_ops_example show ?thesis
    by simp
qed

lemma has_single_bit_1: "has_single_bit 1"
  unfolding has_single_bit_def by (intro bexI [of _ 0]) simp_all

lemma countr_zero_1: "countr_zero 1 = 0"
  using countr_zero_pow [of 0] by simp

text \<open>
  C1, as stated, fails on a block so large that rounding a range's end up to the
  alignment wraps around: in a block of \<open>2 ^ 64 - 1\<close> bytes, after a commit of
  \<open>2 ^ 64 - 100\<close> bytes at alignment 1, a commit of 10 bytes at alignment 256 is placed
  at offset 0 (\<^verbatim>\<open>AlignUpLog2\<close> of the first range's end is \<open>2 ^ 64\<close>, that is 0),
  inside the first range.
\<close>

theorem C1_wrap_around_counterexample:
  "run_ops (MemoryAllocation_new 0x6 0xFFFFFFFFFFFFFFFF 1)
     [OpCommit 0xFFFFFFFFFFFFFF9C 1, OpCommit 10 256] =
     Some \<lparr>allocation_size = 0xFFFFFFFFFFFFFFFF, property_flags = 0x6, shifted_memory_type = 0x2,
           commits = [\<lparr>r_begin = 0, r_end = 0xFFFFFFFFFFFFFF9C\<rparr>, \<lparr>r_begin = 0, r_end = 10\<rparr>]\<rparr> \<and>
   \<not> non_overlapping [\<lparr>r_begin = 0, r_end = 0xFFFFFFFFFFFFFF9C\<rparr>, \<lparr>r_begin = 0, r_end = 10\<rparr>]"
  by (simp add: MemoryAllocation_Commit_def FindFreeRegion_def ASSERT_def has_single_bit_256
      countr_zero_256 has_single_bit_1 countr_zero_1 MemoryAllocation_new_def Let_def
      Contains_def AlignUpLog2_def round_up_def non_overlapping_def overlaps_def)


subsection \<open>The free-region search: capacity without wrap-around\<close>











subsection \<open>Growing the block list\<close>



















subsection \<open>Moving and destroying MemoryCommit objects\<close>

text \<open>
  Between two different objects the moves do what their code intends: the source ends
  with a null back-pointer, so destroying it releases nothing; the destination holds the
  source's range; and move assignment first releases the destination's own range.
\<close>

lemma Release_null: "allocation c = None \<Longrightarrow> Release bs c = Inr bs"
  by (simp add: Release_def)

lemma move_assign_distinct:
  assumes "this \<noteq> rhs" and "MemoryCommit_move_assign h this rhs = Inr h'"
  shows "allocation (objects h' rhs) = None"
    and "objects h' this = \<lparr>allocation = allocation (objects h rhs), interval = interval (objects h rhs)\<rparr>"
    and "Release (block_list h) (objects h this) = Inr (block_list h')"
    and "MemoryCommit_destroy h' rhs = Inr h'"
  using assms
  by (auto simp: MemoryCommit_move_assign_def MemoryCommit_Release_def MemoryCommit_destroy_def
      Release_null Let_def split: sum.splits)

lemma move_construct_distinct:
  assumes "this \<noteq> rhs"
  shows "allocation (objects (MemoryCommit_move_construct h this rhs) rhs) = None"
    and "objects (MemoryCommit_move_construct h this rhs) this =
           \<lparr>allocation = allocation (objects h rhs), interval = interval (objects h rhs)\<rparr>"
    and "block_list (MemoryCommit_move_construct h this rhs) = block_list h"
    and "MemoryCommit_destroy (MemoryCommit_move_construct h this rhs) rhs =
           Inr (MemoryCommit_move_construct h this rhs)"
  using assms
  by (auto simp: MemoryCommit_move_construct_def MemoryCommit_Release_def MemoryCommit_destroy_def
      Release_null Let_def)

text \<open>
  C10 at a self-move-assignment, \<^verbatim>\<open>c = std::move(c)\<close>, of the commit that owns the
  range from 0 to 65536: \<^verbatim>\<open>Release()\<close> frees the range (the block's list is empty
  afterwards), and \<^verbatim>\<open>allocation = std::exchange(rhs.allocation, nullptr)\<close> then stores
  the old pointer back, \<^verbatim>\<open>rhs\<close> being the object itself. The moved-from object keeps a
  non-null back-pointer to the block, and its destruction calls \<^verbatim>\<open>Free\<close> for the same
  range a second time, which fails the assertion there.
\<close>

theorem C10_self_move_assignment_frees_twice:
  "(case MemoryCommit_move_assign example_heap 0 0 of
      Inl e \<Rightarrow> False
    | Inr h \<Rightarrow>
        allocation (objects h 0) = Some 0 \<and>
        interval (objects h 0) = (0, 65536) \<and>
        map commits (block_list h) = [[]] \<and>
        MemoryCommit_destroy h 0 = Inl AssertionFailed)"
  by (simp add: MemoryCommit_move_assign_def MemoryCommit_Release_def MemoryCommit_destroy_def
      Release_def Free_def ASSERT_def example_heap_def example_block_first_def example_block_def
      Let_def)


end
